theory Spec2Isabelle
  imports Main "HOL-Library.Sublist"
begin

section \<open>The streaming summary client of \<^verbatim>\<open>frontend/app/page.tsx\<close>\<close>

text \<open>
  The development embeds \<^verbatim>\<open>handleSummarize\<close> (page.tsx, lines 13-85): the read loop over
  the response body, the splitting of every decoded chunk into events and lines, the
  interpretation of the \<^verbatim>\<open>[DONE]\<close> and \<^verbatim>\<open>[ERROR]\<close> payloads, and the three ways the
  function is left (the \<^verbatim>\<open>return\<close> of line 62, the fall-through to line 79, the
  \<^verbatim>\<open>catch\<close> block of lines 80-84).

  Text is a \<^typ>\<open>string\<close>. A chunk is the text \<^verbatim>\<open>decoder.decode(value)\<close> returns for one
  read; for the ASCII protocol text treated here one character is one byte and one
  UTF-16 code unit, so \<^verbatim>\<open>slice\<close> and \<^verbatim>\<open>startsWith\<close> count the same units as
  \<^const>\<open>drop\<close> and \<^const>\<open>take\<close>. Each chunk is decoded on its own (the decoder is
  called without the streaming option), so the model takes the decoded chunks as its
  input.

  The argument \<^verbatim>\<open>text\<close> only goes into the request body; what the function does next
  depends on what \<^verbatim>\<open>fetch\<close> and the reader give back, and that is the input of the model.
\<close>

subsection \<open>Strings\<close>

abbreviation NL :: char where
  "NL \<equiv> CHR 0x0A"

abbreviation BSL :: char where
  "BSL \<equiv> CHR 0x5C"

text \<open>
  \<^verbatim>\<open>String.prototype.split\<close> with a non-empty separator: the text is scanned from the
  left, every occurrence of the separator closes the current piece and the scan goes on
  behind it, and what remains at the end is the last piece (so the empty text yields one
  empty piece).
\<close>

function splitStr :: "string \<Rightarrow> string \<Rightarrow> string list" where
  "splitStr sep [] = ['''']"
| "splitStr sep (c # cs) =
     (if sep \<noteq> [] \<and> take (length sep) (c # cs) = sep
      then [] # splitStr sep (drop (length sep) (c # cs))
      else (case splitStr sep cs of
              [] \<Rightarrow> [c # '''']
            | h # t \<Rightarrow> (c # h) # t))"
  by pat_completeness auto
termination
  by (relation "measure (\<lambda>(sep, s). length s)") auto

text \<open>With the empty separator \<^verbatim>\<open>split\<close> returns the characters one by one.\<close>

definition split_js :: "string \<Rightarrow> string \<Rightarrow> string list" where
  "split_js sep s = (if sep = [] then map (\<lambda>c. [c]) s else splitStr sep s)"

definition startsWith :: "string \<Rightarrow> string \<Rightarrow> bool" where
  "startsWith s p = (take (length p) s = p)"

text \<open>
  \<^verbatim>\<open>data.replace(/\\n/g, '\n')\<close>: every backslash followed by the letter n, found from
  the left without overlap, becomes one newline character.
\<close>

fun unescape :: "string \<Rightarrow> string" where
  "unescape (a # b # rest) =
     (if a = BSL \<and> b = CHR ''n'' then NL # unescape rest else a # unescape (b # rest))"
| "unescape s = s"

subsection \<open>State and effects\<close>

text \<open>
  What can be thrown inside the \<^verbatim>\<open>try\<close> block: an \<^verbatim>\<open>Error\<close> object with its message,
  or any other value (a rejected read may carry one).
\<close>

datatype exn = Error string | NonError

text \<open>
  The calls the function makes on its surroundings, in order: the three React state
  setters and \<^verbatim>\<open>console.error\<close>, which only the \<^verbatim>\<open>catch\<close> block calls.
\<close>

datatype call =
    SetSummary string
  | SetIsLoading bool
  | SetError string
  | ConsoleError exn

text \<open>
  The local variable \<^verbatim>\<open>accumulatedSummary\<close>, the three \<^verbatim>\<open>useState\<close> values and the
  log of the calls made so far.
\<close>

record session =
  accumulatedSummary :: string
  summary :: string
  isLoading :: bool
  error :: string
  calls :: "call list"

definition setSummary :: "string \<Rightarrow> session \<Rightarrow> session" where
  "setSummary v s = s\<lparr>summary := v, calls := calls s @ [SetSummary v]\<rparr>"

definition setIsLoading :: "bool \<Rightarrow> session \<Rightarrow> session" where
  "setIsLoading v s = s\<lparr>isLoading := v, calls := calls s @ [SetIsLoading v]\<rparr>"

definition setError :: "string \<Rightarrow> session \<Rightarrow> session" where
  "setError v s = s\<lparr>error := v, calls := calls s @ [SetError v]\<rparr>"

definition consoleError :: "exn \<Rightarrow> session \<Rightarrow> session" where
  "consoleError e s = s\<lparr>calls := calls s @ [ConsoleError e]\<rparr>"

text \<open>
  How a block of the function ends: it runs to its end, it executes the \<^verbatim>\<open>return\<close> of
  line 62, or it throws.
\<close>

datatype flow = Continue session | Returned session | Thrown exn session

subsection \<open>The body of the read loop\<close>

text \<open>Lines 57-74: one line of one event.\<close>

definition process_line :: "session \<Rightarrow> string \<Rightarrow> flow" where
  "process_line s line =
     (if startsWith line ''data: '' then
        (let data = drop 6 line in
         if data = ''[DONE]'' then Returned (setIsLoading False s)
         else if startsWith data ''[ERROR]'' then Thrown (Error (drop 8 data)) s
         else
           (let unescaped = unescape data;
                acc = accumulatedSummary s @ unescaped
            in Continue (setSummary acc (s\<lparr>accumulatedSummary := acc\<rparr>))))
      else Continue s)"

text \<open>Lines 56-75: the lines of one event, left at the first \<^verbatim>\<open>return\<close> or \<^verbatim>\<open>throw\<close>.\<close>

fun process_lines :: "session \<Rightarrow> string list \<Rightarrow> flow" where
  "process_lines s [] = Continue s"
| "process_lines s (line # lines) =
     (case process_line s line of
        Continue s' \<Rightarrow> process_lines s' lines
      | Returned s' \<Rightarrow> Returned s'
      | Thrown e s' \<Rightarrow> Thrown e s')"

text \<open>Lines 54-76: the events of one chunk.\<close>

fun process_events :: "session \<Rightarrow> string list \<Rightarrow> flow" where
  "process_events s [] = Continue s"
| "process_events s (event # events) =
     (case process_lines s (split_js [NL] event) of
        Continue s' \<Rightarrow> process_events s' events
      | Returned s' \<Rightarrow> Returned s'
      | Thrown e s' \<Rightarrow> Thrown e s')"

text \<open>Lines 48-76: one decoded chunk, split on the blank line.\<close>

definition process_chunk :: "session \<Rightarrow> string \<Rightarrow> flow" where
  "process_chunk s chunk = process_events s (split_js [NL, NL] chunk)"

subsection \<open>The reader and the read loop\<close>

text \<open>
  One \<^verbatim>\<open>await reader.read()\<close> either resolves with a chunk or rejects. The reader
  is the list of these results; when the list is used up the read resolves with
  \<^verbatim>\<open>done: true\<close>.
\<close>

datatype read_result = Value string | Rejected exn

text \<open>Lines 41-77. The loop is left by \<^verbatim>\<open>break\<close> when the reader is done.\<close>

fun read_loop :: "session \<Rightarrow> read_result list \<Rightarrow> flow" where
  "read_loop s [] = Continue s"
| "read_loop s (Rejected e # reads) = Thrown e s"
| "read_loop s (Value chunk # reads) =
     (case process_chunk s chunk of
        Continue s' \<Rightarrow> read_loop s' reads
      | Returned s' \<Rightarrow> Returned s'
      | Thrown e s' \<Rightarrow> Thrown e s')"

subsection \<open>The whole function\<close>

text \<open>
  What \<^verbatim>\<open>fetch\<close> gives back: it rejects; or the response is not \<^verbatim>\<open>ok\<close> and its JSON
  body either cannot be read or carries an optional \<^verbatim>\<open>detail\<close>; or the response has
  no body; or it has a body, read chunk by chunk.
\<close>

datatype response =
    FetchRejected exn
  | NotOk "exn + string option"
  | NoBody
  | Body "read_result list"

text \<open>Lines 14-16 and 39: the state when the \<^verbatim>\<open>try\<close> block is entered.\<close>

definition start :: session where
  "start = setSummary '''' (setError '''' (setIsLoading True
     \<lparr>accumulatedSummary = '''', summary = '''', isLoading = False, error = '''',
      calls = []\<rparr>))"

text \<open>Lines 19-77: the \<^verbatim>\<open>try\<close> block up to the end of the loop.\<close>

definition try_block :: "response \<Rightarrow> flow" where
  "try_block r =
     (case r of
        FetchRejected e \<Rightarrow> Thrown e start
      | NotOk (Inl e) \<Rightarrow> Thrown e start
      | NotOk (Inr detail) \<Rightarrow>
          Thrown (Error (case detail of
                           None \<Rightarrow> ''Failed to generate summary''
                         | Some d \<Rightarrow> if d = [] then ''Failed to generate summary'' else d))
            start
      | NoBody \<Rightarrow> Thrown (Error ''No response body'') start
      | Body reads \<Rightarrow> read_loop start reads)"

text \<open>Lines 80-84: the \<^verbatim>\<open>catch\<close> block.\<close>

definition catch_block :: "exn \<Rightarrow> session \<Rightarrow> session" where
  "catch_block err s =
     consoleError err
       (setError (case err of Error m \<Rightarrow> m | NonError \<Rightarrow> ''An unexpected error occurred'')
          (setIsLoading False s))"

text \<open>
  The way the function is left. \<open>DONE\<close> is the \<^verbatim>\<open>return\<close> of line 62 after a
  \<^verbatim>\<open>[DONE]\<close> payload, \<open>FAILED\<close> is the \<^verbatim>\<open>catch\<close> block, and \<open>ENDED\<close> is the
  fall-through to line 79 after the reader reported \<^verbatim>\<open>done\<close>.
\<close>

datatype state = DONE | FAILED | ENDED

definition handleSummarize :: "response \<Rightarrow> state \<times> session" where
  "handleSummarize r =
     (case try_block r of
        Continue s \<Rightarrow> (ENDED, setIsLoading False s)
      | Returned s \<Rightarrow> (DONE, s)
      | Thrown e s \<Rightarrow> (FAILED, catch_block e s))"

subsection \<open>Notions used to state the properties\<close>

text \<open>
  The lines the two nested loops visit for one chunk, in the order they visit them: the
  lines of the first event, then those of the second, and so on.
\<close>

definition chunk_lines :: "string \<Rightarrow> string list" where
  "chunk_lines chunk = concat (map (split_js [NL]) (split_js [NL, NL] chunk))"

text \<open>The test of line 57.\<close>

definition data_line :: "string \<Rightarrow> bool" where
  "data_line line = startsWith line ''data: ''"

text \<open>A payload that passes both tests of lines 60 and 65 and so reaches line 71.\<close>

definition is_content :: "string \<Rightarrow> bool" where
  "is_content data = (data \<noteq> ''[DONE]'' \<and> \<not> startsWith data ''[ERROR]'')"

text \<open>A line on which the function returns or throws.\<close>

definition sentinel_line :: "string \<Rightarrow> bool" where
  "sentinel_line line = (data_line line \<and> \<not> is_content (drop 6 line))"

text \<open>Lines 71-73 for one payload.\<close>

definition content_step :: "session \<Rightarrow> string \<Rightarrow> session" where
  "content_step s data =
     setSummary (accumulatedSummary s @ unescape data)
       (s\<lparr>accumulatedSummary := accumulatedSummary s @ unescape data\<rparr>)"

text \<open>
  The texts shown one after the other when the payloads \<open>ps\<close> are appended, decoded, to
  the text \<open>acc\<close>.
\<close>

fun snapshots :: "string \<Rightarrow> string list \<Rightarrow> string list" where
  "snapshots acc [] = []"
| "snapshots acc (p # ps) = (acc @ unescape p) # snapshots (acc @ unescape p) ps"

text \<open>One event of the wire format: a data line and the blank line that closes it.\<close>

definition frame :: "string \<Rightarrow> string" where
  "frame payload = ''data: '' @ payload @ [NL, NL]"

text \<open>The session a block ends with, and whether the block ran to its end.\<close>

fun flow_session :: "flow \<Rightarrow> session" where
  "flow_session (Continue s) = s"
| "flow_session (Returned s) = s"
| "flow_session (Thrown e s) = s"

fun running :: "flow \<Rightarrow> bool" where
  "running (Continue s) = True"
| "running (Returned s) = False"
| "running (Thrown e s) = False"

text \<open>
  The values handed to \<^verbatim>\<open>setSummary\<close>, and the errors handed to \<^verbatim>\<open>console.error\<close> (one
  for every run of the \<^verbatim>\<open>catch\<close> block), in the order of the calls.
\<close>

fun progress_values :: "call list \<Rightarrow> string list" where
  "progress_values [] = []"
| "progress_values (SetSummary v # cs) = v # progress_values cs"
| "progress_values (c # cs) = progress_values cs"

fun handler_calls :: "call list \<Rightarrow> exn list" where
  "handler_calls [] = []"
| "handler_calls (ConsoleError e # cs) = e # handler_calls cs"
| "handler_calls (c # cs) = handler_calls cs"


text \<open>
  The invariant of the text shown: the values handed to \<^verbatim>\<open>setSummary\<close> so far are each
  a prefix of all later ones, and the last of them is the accumulated text.
\<close>

definition growing :: "session \<Rightarrow> bool" where
  "growing s = (sorted_wrt prefix (progress_values (calls s)) \<and>
                progress_values (calls s) \<noteq> [] \<and>
                last (progress_values (calls s)) = accumulatedSummary s)"

section \<open>Properties\<close>

subsection \<open>Splitting\<close>

lemma splitStr_line: "NL \<notin> set l \<Longrightarrow> splitStr [NL] l = [l]"
  by (induction l) auto

lemma splitStr_whole: "NL \<notin> set l \<Longrightarrow> splitStr [NL, NL] l = [l]"
  by (induction l) auto

lemma splitStr_frame:
  "NL \<notin> set l \<Longrightarrow> splitStr [NL, NL] (l @ NL # NL # rest) = l # splitStr [NL, NL] rest"
  by (induction l) auto

lemma chunk_lines_Nil: "chunk_lines [] = ['''']"
  by (simp add: chunk_lines_def split_js_def)

lemma chunk_lines_whole: "NL \<notin> set l \<Longrightarrow> chunk_lines l = [l]"
  by (simp add: chunk_lines_def split_js_def splitStr_whole splitStr_line)

lemma chunk_lines_frame:
  "NL \<notin> set l \<Longrightarrow> chunk_lines (l @ NL # NL # rest) = l # chunk_lines rest"
  by (simp add: chunk_lines_def split_js_def splitStr_frame splitStr_line)

lemma chunk_lines_frames:
  "\<forall>p\<in>set ps. NL \<notin> set p \<Longrightarrow>
   chunk_lines (concat (map frame ps) @ rest) = map (\<lambda>p. ''data: '' @ p) ps @ chunk_lines rest"
proof (induction ps)
  case Nil
  show ?case by simp
next
  case (Cons p ps)
  let ?tail = "concat (map frame ps) @ rest"
  have free: "NL \<notin> set (''data: '' @ p)" using Cons.prems by simp
  have "concat (map frame (p # ps)) @ rest = (''data: '' @ p) @ NL # NL # ?tail"
    by (simp add: frame_def)
  then have "chunk_lines (concat (map frame (p # ps)) @ rest) = (''data: '' @ p) # chunk_lines ?tail"
    using chunk_lines_frame[OF free] by presburger
  then show ?case using Cons by simp
qed

subsection \<open>The loops\<close>

lemma process_lines_append:
  "process_lines s (xs @ ys) =
     (case process_lines s xs of Continue s' \<Rightarrow> process_lines s' ys
      | Returned s' \<Rightarrow> Returned s' | Thrown e s' \<Rightarrow> Thrown e s')"
  by (induction xs arbitrary: s) (auto split: flow.splits)

lemma process_events_lines:
  "process_events s es = process_lines s (concat (map (split_js [NL]) es))"
  by (induction es arbitrary: s) (auto simp: process_lines_append split: flow.splits)

lemma process_chunk_lines: "process_chunk s c = process_lines s (chunk_lines c)"
  by (simp add: process_chunk_def chunk_lines_def process_events_lines)

lemma read_loop_append:
  "read_loop s (xs @ ys) =
     (case read_loop s xs of Continue s' \<Rightarrow> read_loop s' ys
      | Returned s' \<Rightarrow> Returned s' | Thrown e s' \<Rightarrow> Thrown e s')"
  by (induction s xs rule: read_loop.induct) (auto split: flow.splits)

lemma process_line_content:
  "is_content p \<Longrightarrow> process_line s (''data: '' @ p) = Continue (content_step s p)"
  by (simp add: process_line_def startsWith_def is_content_def content_step_def Let_def)

lemma process_line_plain:
  "\<not> sentinel_line l \<Longrightarrow>
   process_line s l = Continue (if data_line l then content_step s (drop 6 l) else s)"
  by (auto simp: process_line_def sentinel_line_def data_line_def is_content_def
        content_step_def Let_def)

lemma process_lines_plain:
  "\<forall>l\<in>set ls. \<not> sentinel_line l \<Longrightarrow>
   process_lines s ls = Continue (foldl content_step s (map (drop 6) (filter data_line ls)))"
  by (induction ls arbitrary: s) (auto simp: process_line_plain)

lemma read_loop_plain:
  "\<forall>c\<in>set cs. \<forall>l\<in>set (chunk_lines c). \<not> sentinel_line l \<Longrightarrow>
   read_loop s (map Value cs) =
     Continue (foldl content_step s
       (map (drop 6) (filter data_line (concat (map chunk_lines cs)))))"
  by (induction cs arbitrary: s) (auto simp: process_chunk_lines process_lines_plain)

lemma process_events_append:
  "process_events s (xs @ ys) =
     (case process_events s xs of Continue s' \<Rightarrow> process_events s' ys
      | Returned s' \<Rightarrow> Returned s' | Thrown e s' \<Rightarrow> Thrown e s')"
  by (induction xs arbitrary: s) (auto split: flow.splits)

lemma process_line_other: "\<not> data_line l \<Longrightarrow> process_line s l = Continue s"
  by (simp add: process_line_def data_line_def)

subsection \<open>Appending payloads\<close>

lemma deliver_acc:
  "accumulatedSummary (foldl content_step s ps) = accumulatedSummary s @ concat (map unescape ps)"
  by (induction ps arbitrary: s) (auto simp: content_step_def setSummary_def)

lemma deliver_calls:
  "calls (foldl content_step s ps) = calls s @ map SetSummary (snapshots (accumulatedSummary s) ps)"
  by (induction ps arbitrary: s) (auto simp: content_step_def setSummary_def)

lemma deliver_error: "error (foldl content_step s ps) = error s"
  by (induction ps arbitrary: s) (auto simp: content_step_def setSummary_def)

lemma deliver_isLoading: "isLoading (foldl content_step s ps) = isLoading s"
  by (induction ps arbitrary: s) (auto simp: content_step_def setSummary_def)

lemma length_snapshots: "length (snapshots acc ps) = length ps"
  by (induction ps arbitrary: acc) simp_all

lemma unescape_append:
  "unescape (a @ BSL # CHR ''n'' # b) = unescape a @ NL # unescape b"
  by (induction a rule: unescape.induct) auto

lemma unescape_plain: "BSL \<notin> set a \<Longrightarrow> unescape a = a"
  by (induction a rule: unescape.induct) auto

lemma process_lines_frames:
  "\<forall>p\<in>set ps. is_content p \<Longrightarrow>
   process_lines s (map (\<lambda>p. ''data: '' @ p) ps @ rest) = process_lines (foldl content_step s ps) rest"
proof (induction ps arbitrary: s)
  case Nil
  show ?case by simp
next
  case (Cons p ps)
  have "is_content p" using Cons.prems by simp
  then have line: "process_line s (''data: '' @ p) = Continue (content_step s p)"
    by (rule process_line_content)
  have "process_lines s ((''data: '' @ p) # (map (\<lambda>p. ''data: '' @ p) ps @ rest)) =
        process_lines (content_step s p) (map (\<lambda>p. ''data: '' @ p) ps @ rest)"
    by (simp only: process_lines.simps line flow.case)
  then show ?case using Cons by simp
qed

lemma process_chunk_frames:
  assumes "\<forall>p\<in>set ps. is_content p \<and> NL \<notin> set p"
  shows "process_chunk s (concat (map frame ps) @ rest) =
         process_lines (foldl content_step s ps) (chunk_lines rest)"
proof -
  have free: "\<forall>p\<in>set ps. NL \<notin> set p" and content: "\<forall>p\<in>set ps. is_content p"
    using assms by simp_all
  show ?thesis
    by (simp only: process_chunk_lines chunk_lines_frames[OF free] process_lines_frames[OF content])
qed

lemma process_line_empty: "process_line s [] = Continue s"
  by (simp add: process_line_def startsWith_def)

lemma process_chunk_aligned:
  assumes "\<forall>p\<in>set ps. is_content p \<and> NL \<notin> set p"
  shows "process_chunk s (concat (map frame ps)) = Continue (foldl content_step s ps)"
  using process_chunk_frames[OF assms, of s "[]"]
  by (simp add: chunk_lines_Nil process_line_empty)

lemma process_line_done: "process_line s ''data: [DONE]'' = Returned (setIsLoading False s)"
  by (simp add: process_line_def startsWith_def)

lemma process_line_error:
  "process_line s (''data: [ERROR]'' @ c # msg) = Thrown (Error msg) s"
  by (simp add: process_line_def startsWith_def)

lemma read_loop_stops:
  assumes "read_loop s0 before = Continue s1"
    and "chunk_lines chunk = ls @ l # ls'"
    and "process_lines s1 ls = Continue s2"
    and "\<not> running (process_line s2 l)"
  shows "read_loop s0 (before @ Value chunk # after) = process_line s2 l"
  using assms
  by (cases "process_line s2 l")
     (simp_all add: read_loop_append process_chunk_lines process_lines_append)

lemma flow_invariant_lines:
  assumes step: "\<And>s l. P s \<Longrightarrow> P (flow_session (process_line s l))"
  shows "P s \<Longrightarrow> P (flow_session (process_lines s ls))"
proof (induction ls arbitrary: s)
  case Nil then show ?case by simp
next
  case (Cons l ls)
  from step[OF Cons.prems, of l] Cons.IH show ?case
    by (cases "process_line s l") auto
qed

lemma flow_invariant_loop:
  assumes step: "\<And>s l. P s \<Longrightarrow> P (flow_session (process_line s l))"
  shows "P s \<Longrightarrow> P (flow_session (read_loop s reads))"
proof (induction s reads rule: read_loop.induct)
  case (1 s) then show ?case by simp
next
  case (2 s e reads) then show ?case by simp
next
  case (3 s chunk reads)
  from flow_invariant_lines[of P, OF step "3.prems", of "chunk_lines chunk"] "3.IH" 
  show ?case
    by (cases "process_lines s (chunk_lines chunk)") (auto simp: process_chunk_lines)
qed

subsection \<open>Chunk boundaries at the ends of lines\<close>
















subsection \<open>The log of calls\<close>

lemma handler_calls_append [simp]:
  "handler_calls (xs @ ys) = handler_calls xs @ handler_calls ys"
  by (induction xs rule: handler_calls.induct) simp_all

lemma progress_values_append [simp]:
  "progress_values (xs @ ys) = progress_values xs @ progress_values ys"
  by (induction xs rule: progress_values.induct) simp_all

lemma handler_calls_SetSummary [simp]: "handler_calls (map SetSummary xs) = []"
  by (induction xs) simp_all

lemma progress_values_SetSummary [simp]: "progress_values (map SetSummary xs) = xs"
  by (induction xs) simp_all

lemma start_fields:
  "accumulatedSummary start = ''''" "error start = ''''" "isLoading start = True"
  "calls start = [SetIsLoading True, SetError '''', SetSummary '''']"
  by (simp_all add: start_def setSummary_def setError_def setIsLoading_def)

lemma catch_block_fields:
  "accumulatedSummary (catch_block e s) = accumulatedSummary s"
  "summary (catch_block e s) = summary s"
  "isLoading (catch_block e s) = False"
  "error (catch_block e s) = (case e of Error m \<Rightarrow> m | NonError \<Rightarrow> ''An unexpected error occurred'')"
  "calls (catch_block e s) =
     calls s @ [SetIsLoading False,
                SetError (case e of Error m \<Rightarrow> m | NonError \<Rightarrow> ''An unexpected error occurred''),
                ConsoleError e]"
  by (simp_all add: catch_block_def consoleError_def setError_def setIsLoading_def)

lemma handleSummarize_Body:
  "handleSummarize (Body reads) =
     (case read_loop start reads of
        Continue s \<Rightarrow> (ENDED, setIsLoading False s)
      | Returned s \<Rightarrow> (DONE, s)
      | Thrown e s \<Rightarrow> (FAILED, catch_block e s))"
  by (simp add: handleSummarize_def try_block_def)

subsection \<open>Invariants of a run\<close>

lemma process_line_quiet:
  "handler_calls (calls s) = [] \<Longrightarrow>
   handler_calls (calls (flow_session (process_line s l))) = []"
  by (simp add: process_line_def setIsLoading_def setSummary_def Let_def)

lemma try_block_quiet: "handler_calls (calls (flow_session (try_block r))) = []"
proof (cases r)
  case (Body reads)
  have "handler_calls (calls start) = []" by (simp add: start_fields)
  with process_line_quiet
  have "handler_calls (calls (flow_session (read_loop start reads))) = []"
    by (rule flow_invariant_loop[where P = "\<lambda>s. handler_calls (calls s) = []"])
  then show ?thesis using Body by (simp add: try_block_def)
next
  case (NotOk x)
  then show ?thesis by (cases x) (simp_all add: try_block_def start_fields)
qed (simp_all add: try_block_def start_fields)

lemma handler_reached_once:
  "handler_calls (calls (snd (handleSummarize r))) =
     (case try_block r of Thrown e s \<Rightarrow> [e] | _ \<Rightarrow> [])"
  using try_block_quiet[of r]
  by (cases "try_block r")
     (simp_all add: handleSummarize_def setIsLoading_def catch_block_fields)

lemma sorted_prefix_last:
  "sorted_wrt prefix xs \<Longrightarrow> y \<in> set xs \<Longrightarrow> prefix y (last xs)"
  by (induction xs) auto

lemma growing_content_step: "growing s \<Longrightarrow> growing (content_step s p)"
proof -
  assume g: "growing s"
  have "prefix y (accumulatedSummary s @ unescape p)"
    if "y \<in> set (progress_values (calls s))" for y
  proof -
    from g that have "prefix y (accumulatedSummary s)"
      using sorted_prefix_last[of "progress_values (calls s)" y] by (simp add: growing_def)
    then show ?thesis by (rule prefix_prefix)
  qed
  with g show ?thesis
    by (simp add: growing_def content_step_def setSummary_def sorted_wrt_append)
qed

lemma growing_process_line: "growing s \<Longrightarrow> growing (flow_session (process_line s l))"
proof (cases "sentinel_line l")
  case False
  assume "growing s"
  then show ?thesis
    by (simp add: process_line_plain[OF False] growing_content_step)
next
  case True
  assume "growing s"
  with True show ?thesis
    by (auto simp: process_line_def Let_def growing_def setIsLoading_def sentinel_line_def
          data_line_def is_content_def)
qed

lemma growing_start: "growing start"
  by (simp add: growing_def start_fields)

lemma growing_try_block: "growing (flow_session (try_block r))"
proof (cases r)
  case (Body reads)
  from growing_process_line growing_start
  have "growing (flow_session (read_loop start reads))"
    by (rule flow_invariant_loop[where P = growing])
  then show ?thesis using Body by (simp add: try_block_def)
next
  case (NotOk x)
  then show ?thesis by (cases x) (simp_all add: try_block_def growing_start)
qed (simp_all add: try_block_def growing_start)

lemma growing_handleSummarize: "growing (snd (handleSummarize r))"
  using growing_try_block[of r]
  by (cases "try_block r")
     (simp_all add: handleSummarize_def growing_def setIsLoading_def catch_block_fields)

section \<open>The claims\<close>

subsection \<open>C1: chunks and lines\<close>




subsection \<open>C2: the reader ends without a sentinel\<close>

text \<open>
  C2, as the code has it. When every read resolves with a chunk and no line of any chunk
  is a \<^verbatim>\<open>[DONE]\<close> or \<^verbatim>\<open>[ERROR]\<close> data line, the loop is left by \<^verbatim>\<open>break\<close> and the
  function ends normally (state \<open>ENDED\<close>): the loading flag is cleared, the error text
  stays empty, the \<^verbatim>\<open>catch\<close> block is never run, and the accumulated text is the
  concatenation of the decoded payloads of all data lines.
\<close>

theorem stream_end_silent:
  assumes "\<forall>c\<in>set chunks. \<forall>l\<in>set (chunk_lines c). \<not> sentinel_line l"
  shows "fst (handleSummarize (Body (map Value chunks))) = ENDED \<and>
         isLoading (snd (handleSummarize (Body (map Value chunks)))) = False \<and>
         error (snd (handleSummarize (Body (map Value chunks)))) = '''' \<and>
         handler_calls (calls (snd (handleSummarize (Body (map Value chunks))))) = [] \<and>
         accumulatedSummary (snd (handleSummarize (Body (map Value chunks)))) =
           concat (map unescape (map (drop 6) (filter data_line (concat (map chunk_lines chunks)))))"
proof -
  let ?ps = "map (drop 6) (filter data_line (concat (map chunk_lines chunks)))"
  have run: "handleSummarize (Body (map Value chunks)) =
             (ENDED, setIsLoading False (foldl content_step start ?ps))"
    by (simp add: handleSummarize_def try_block_def read_loop_plain[OF assms])
  show ?thesis
    unfolding run
    by (simp add: setIsLoading_def deliver_acc deliver_calls deliver_error start_fields)
qed

text \<open>
  The theorem at two chunks, the second with a line that is no data line and a data line
  that no blank line closes.
\<close>

theorem stream_end_silent_witness:
  "fst (handleSummarize (Body (map Value
     [''data: partial'' @ [NL, NL], ''id: 7'' @ [NL] @ ''data: text'']))) = ENDED \<and>
   error (snd (handleSummarize (Body (map Value
     [''data: partial'' @ [NL, NL], ''id: 7'' @ [NL] @ ''data: text''])))) = '''' \<and>
   accumulatedSummary (snd (handleSummarize (Body (map Value
     [''data: partial'' @ [NL, NL], ''id: 7'' @ [NL] @ ''data: text''])))) = ''partialtext''"
proof -
  let ?chunks = "[''data: partial'' @ [NL, NL], ''id: 7'' @ [NL] @ ''data: text'']"
  have plain: "\<forall>c\<in>set ?chunks. \<forall>l\<in>set (chunk_lines c). \<not> sentinel_line l"
    by code_simp
  have acc: "concat (map unescape (map (drop 6) (filter data_line
               (concat (map chunk_lines ?chunks))))) = ''partialtext''"
    by code_simp
  from stream_end_silent[OF plain] acc show ?thesis
    by presburger
qed

text \<open>
  C2 as stated fails: after the single chunk \<^verbatim>\<open>"data: partial\n\n"\<close> the reader is done,
  no sentinel was seen, and the function does not end in \<open>FAILED\<close>; the error text is
  empty and the log holds no call of the \<^verbatim>\<open>catch\<close> block.
\<close>

theorem stream_end_counterexample:
  "fst (handleSummarize (Body [Value (''data: partial'' @ [NL, NL])])) \<noteq> FAILED \<and>
   error (snd (handleSummarize (Body [Value (''data: partial'' @ [NL, NL])]))) = '''' \<and>
   calls (snd (handleSummarize (Body [Value (''data: partial'' @ [NL, NL])]))) =
     [SetIsLoading True, SetError '''', SetSummary '''', SetSummary ''partial'',
      SetIsLoading False]"
  by code_simp

subsection \<open>C3: progress calls\<close>

text \<open>
  C3, as the code has it. \<^verbatim>\<open>setSummary\<close> is called once for every content data line of
  every chunk, each chunk taken on its own. After reads \<open>before\<close> that left the loop
  running in session \<open>s\<close>:

  \<^item> a chunk made of \<open>n\<close> whole content frames triggers exactly \<open>n\<close> progress calls, in the
    order of the frames, each with the text accumulated so far (so two frames in one
    chunk trigger two calls);

  \<^item> a frame whose payload is cut by a chunk boundary, \<^verbatim>\<open>"data: " + p1\<close> in one chunk and
    \<^verbatim>\<open>p2 + "\n\n"\<close> in the next, triggers exactly one progress call, and it carries the
    first part \<open>p1\<close> only: the second chunk's line \<open>p2\<close> is no data line and is dropped.
    (Here \<open>p1\<close> on its own is a content payload and \<open>p2\<close> does not itself begin with
    \<^verbatim>\<open>"data: "\<close>.)
\<close>

theorem progress_per_data_line:
  assumes run: "read_loop start before = Continue s"
    and frames: "\<forall>p\<in>set ps. is_content p \<and> NL \<notin> set p"
    and part: "is_content p1" "NL \<notin> set p1" "NL \<notin> set p2" "\<not> data_line p2"
  shows "calls (snd (handleSummarize (Body (before @ [Value (concat (map frame ps))])))) =
           calls s @ map SetSummary (snapshots (accumulatedSummary s) ps) @ [SetIsLoading False] \<and>
         length (snapshots (accumulatedSummary s) ps) = length ps \<and>
         calls (snd (handleSummarize (Body
            (before @ [Value (''data: '' @ p1), Value (p2 @ [NL, NL])])))) =
           calls s @ [SetSummary (accumulatedSummary s @ unescape p1), SetIsLoading False]"
proof -
  have whole: "read_loop start (before @ [Value (concat (map frame ps))]) =
               Continue (foldl content_step s ps)"
    by (simp add: read_loop_append run process_chunk_aligned[OF frames])
  have l1: "chunk_lines (''data: '' @ p1) = [''data: '' @ p1]"
    by (rule chunk_lines_whole) (use part in simp)
  have l2: "chunk_lines (p2 @ [NL, NL]) = [p2, []]"
    using chunk_lines_frame[OF part(3), of "[]"] by (simp add: chunk_lines_Nil)
  have c1: "process_chunk s (''data: '' @ p1) = Continue (content_step s p1)"
    by (simp only: process_chunk_lines l1 process_lines.simps
          process_line_content[OF part(1)] flow.case)
  have c2: "process_chunk s' (p2 @ [NL, NL]) = Continue s'" for s'
    by (simp only: process_chunk_lines l2 process_lines.simps
          process_line_other[OF part(4)] process_line_empty flow.case)
  have halves: "read_loop start (before @ [Value (''data: '' @ p1), Value (p2 @ [NL, NL])]) =
                Continue (content_step s p1)"
    by (simp only: read_loop_append run flow.case read_loop.simps c1 c2)
  have r1: "handleSummarize (Body (before @ [Value (concat (map frame ps))])) =
            (ENDED, setIsLoading False (foldl content_step s ps))"
    by (simp only: handleSummarize_Body whole flow.case)
  have r2: "handleSummarize (Body (before @ [Value (''data: '' @ p1), Value (p2 @ [NL, NL])])) =
            (ENDED, setIsLoading False (content_step s p1))"
    by (simp only: handleSummarize_Body halves flow.case)
  show ?thesis
    unfolding r1 r2
    by (simp add: setIsLoading_def deliver_calls length_snapshots content_step_def setSummary_def)
qed

text \<open>
  The theorem after the chunk \<^verbatim>\<open>"data: a\n\n"\<close>: two frames \<open>b\<close> and \<open>c\<close> in one chunk,
  and the frame \<^verbatim>\<open>"data: hello\n\n"\<close> cut after \<^verbatim>\<open>"hel"\<close>.
\<close>

theorem progress_per_data_line_witness:
  "calls (snd (handleSummarize (Body
      ([Value (''data: a'' @ [NL, NL])] @
       [Value (concat (map frame [''b'', ''c'']))])))) =
     [SetIsLoading True, SetError '''', SetSummary '''', SetSummary ''a''] @
     map SetSummary (snapshots ''a'' [''b'', ''c'']) @ [SetIsLoading False] \<and>
   snapshots ''a'' [''b'', ''c''] = [''ab'', ''abc''] \<and>
   calls (snd (handleSummarize (Body
      ([Value (''data: a'' @ [NL, NL])] @ [Value (''data: '' @ ''hel''), Value (''lo'' @ [NL, NL])])))) =
     [SetIsLoading True, SetError '''', SetSummary '''', SetSummary ''a''] @
     [SetSummary (''a'' @ unescape ''hel''), SetIsLoading False]"
proof -
  let ?s = "\<lparr>accumulatedSummary = ''a'', summary = ''a'', isLoading = True, error = '''',
             calls = [SetIsLoading True, SetError '''', SetSummary '''', SetSummary ''a'']\<rparr>"
  have run: "read_loop start [Value (''data: a'' @ [NL, NL])] = Continue ?s"
    by code_simp
  have frames: "\<forall>p\<in>set [''b'', ''c'']. is_content p \<and> NL \<notin> set p"
    by code_simp
  have part: "is_content ''hel''" "NL \<notin> set ''hel''" "NL \<notin> set ''lo''" "\<not> data_line ''lo''"
    by code_simp+
  have snaps: "snapshots ''a'' [''b'', ''c''] = [''ab'', ''abc'']"
    by code_simp
  from progress_per_data_line[OF run frames part] snaps show ?thesis
    by simp
qed

text \<open>
  C3 as stated fails for the split frame: \<^verbatim>\<open>"data: hel"\<close> followed by \<^verbatim>\<open>"lo\n\n"\<close> triggers
  one progress call, and it carries \<^verbatim>\<open>"hel"\<close>, not the merged payload \<^verbatim>\<open>"hello"\<close>.
\<close>

theorem split_frame_counterexample:
  "calls (snd (handleSummarize (Body [Value ''data: hel'', Value (''lo'' @ [NL, NL])]))) =
     [SetIsLoading True, SetError '''', SetSummary '''', SetSummary ''hel'', SetIsLoading False] \<and>
   SetSummary ''hello'' \<notin> set (calls (snd (handleSummarize (Body
     [Value ''data: hel'', Value (''lo'' @ [NL, NL])]))))"
  by code_simp

subsection \<open>C4: the error line and the failure paths\<close>

text \<open>
  C4, as the code has it. Let the reads \<open>before\<close> have left the loop running, let the data
  line \<^verbatim>\<open>"data: [ERROR] API quota exceeded"\<close> be one of the lines of the next chunk (no
  chunk boundary cuts it), and let the lines \<open>ls\<close> before it in that chunk have left the
  loop running in session \<open>s2\<close>. Then, whatever follows in the chunk and in later reads,
  the function ends in \<open>FAILED\<close> with the error text \<^verbatim>\<open>"API quota exceeded"\<close>; the only
  calls after those of \<open>s2\<close> are the three calls of the \<^verbatim>\<open>catch\<close> block, so no progress
  call follows the error line. A rejected read after \<open>before\<close> also ends in \<open>FAILED\<close>,
  through the same \<^verbatim>\<open>catch\<close> block, with the message of the error thrown. For every
  response at all, the \<^verbatim>\<open>catch\<close> block runs exactly once when the function ends in
  \<open>FAILED\<close> and never otherwise; the function has no other way out, so nothing thrown
  inside it reaches the caller.
\<close>

theorem error_line_reported:
  assumes run: "read_loop start before = Continue s1"
    and lines: "chunk_lines chunk = ls @ ''data: [ERROR] API quota exceeded'' # ls'"
    and upto: "process_lines s1 ls = Continue s2"
  shows "handleSummarize (Body (before @ Value chunk # after)) =
           (FAILED, s2\<lparr>isLoading := False, error := ''API quota exceeded'',
                        calls := calls s2 @ [SetIsLoading False, SetError ''API quota exceeded'',
                                             ConsoleError (Error ''API quota exceeded'')]\<rparr>) \<and>
         handleSummarize (Body (before @ Rejected e # after)) =
           (FAILED, s1\<lparr>isLoading := False,
                        error := (case e of Error m \<Rightarrow> m
                                  | NonError \<Rightarrow> ''An unexpected error occurred''),
                        calls := calls s1 @
                          [SetIsLoading False,
                           SetError (case e of Error m \<Rightarrow> m
                                     | NonError \<Rightarrow> ''An unexpected error occurred''),
                           ConsoleError e]\<rparr>) \<and>
         length (handler_calls (calls (snd (handleSummarize r)))) =
           (if fst (handleSummarize r) = FAILED then 1 else 0)"
proof -
  let ?line = "''data: [ERROR] API quota exceeded''"
  let ?msg = "''API quota exceeded''"
  have thrown: "process_line s2 ?line = Thrown (Error ?msg) s2"
    using process_line_error[of s2 "CHR '' ''" ?msg] by simp
  then have stop: "\<not> running (process_line s2 ?line)"
    by simp
  have "read_loop start (before @ Value chunk # after) = process_line s2 ?line"
    using run lines upto stop by (rule read_loop_stops)
  then have r1: "handleSummarize (Body (before @ Value chunk # after)) =
                 (FAILED, catch_block (Error ?msg) s2)"
    by (simp only: handleSummarize_Body thrown flow.case)
  have r2: "handleSummarize (Body (before @ Rejected e # after)) = (FAILED, catch_block e s1)"
    by (simp add: handleSummarize_Body read_loop_append run)
  have r3: "length (handler_calls (calls (snd (handleSummarize r)))) =
            (if fst (handleSummarize r) = FAILED then 1 else 0)"
    using handler_reached_once[of r]
    by (cases "try_block r") (simp_all add: handleSummarize_def)
  have block: "catch_block x s =
      s\<lparr>isLoading := False,
        error := (case x of Error m \<Rightarrow> m | NonError \<Rightarrow> ''An unexpected error occurred''),
        calls := calls s @
          [SetIsLoading False,
           SetError (case x of Error m \<Rightarrow> m | NonError \<Rightarrow> ''An unexpected error occurred''),
           ConsoleError x]\<rparr>" for x s
    by (simp add: catch_block_def consoleError_def setError_def setIsLoading_def)
  show ?thesis
    unfolding r1 r2 using r3 by (simp add: block)
qed

text \<open>
  The theorem after the chunk \<^verbatim>\<open>"data: a\n\n"\<close>: the error line comes behind other lines
  of its chunk and the chunk ends inside the blank line that closes it; and a rejected
  read in place of the chunk.
\<close>

theorem error_line_reported_witness:
  "handleSummarize (Body ([Value (''data: a'' @ [NL, NL])] @
      Value (''id: 7'' @ [NL] @ ''data: b'' @ [NL, NL] @
             ''retry: 5'' @ [NL] @ ''data: [ERROR] API quota exceeded'' @ [NL]) #
      [Value ([NL] @ ''data: c'' @ [NL, NL])])) =
   (FAILED, \<lparr>accumulatedSummary = ''ab'', summary = ''ab'', isLoading = False,
             error = ''API quota exceeded'',
             calls = [SetIsLoading True, SetError '''', SetSummary '''', SetSummary ''a'',
                      SetSummary ''ab'', SetIsLoading False, SetError ''API quota exceeded'',
                      ConsoleError (Error ''API quota exceeded'')]\<rparr>) \<and>
   handleSummarize (Body ([Value (''data: a'' @ [NL, NL])] @
      Rejected (Error ''network error'') # [Value ([NL] @ ''data: c'' @ [NL, NL])])) =
   (FAILED, \<lparr>accumulatedSummary = ''a'', summary = ''a'', isLoading = False,
             error = ''network error'',
             calls = [SetIsLoading True, SetError '''', SetSummary '''', SetSummary ''a'',
                      SetIsLoading False, SetError ''network error'',
                      ConsoleError (Error ''network error'')]\<rparr>)"
proof -
  let ?s1 = "\<lparr>accumulatedSummary = ''a'', summary = ''a'', isLoading = True, error = '''',
              calls = [SetIsLoading True, SetError '''', SetSummary '''', SetSummary ''a'']\<rparr>"
  let ?s2 = "\<lparr>accumulatedSummary = ''ab'', summary = ''ab'', isLoading = True, error = '''',
              calls = [SetIsLoading True, SetError '''', SetSummary '''', SetSummary ''a'',
                       SetSummary ''ab'']\<rparr>"
  have run: "read_loop start [Value (''data: a'' @ [NL, NL])] = Continue ?s1"
    by code_simp
  have lines: "chunk_lines (''id: 7'' @ [NL] @ ''data: b'' @ [NL, NL] @
                 ''retry: 5'' @ [NL] @ ''data: [ERROR] API quota exceeded'' @ [NL]) =
               [''id: 7'', ''data: b'', ''retry: 5''] @
               ''data: [ERROR] API quota exceeded'' # ['''']"
    by code_simp
  have upto: "process_lines ?s1 [''id: 7'', ''data: b'', ''retry: 5''] = Continue ?s2"
    by code_simp
  from error_line_reported[OF run lines upto,
      of "[Value ([NL] @ ''data: c'' @ [NL, NL])]" "Error ''network error''"]
  show ?thesis by simp
qed

text \<open>
  C4 as stated, for every input stream containing the frame, fails when a chunk boundary
  falls inside the frame: the message handed to \<^verbatim>\<open>setError\<close> is the part of it that
  arrived in the first chunk.
\<close>

theorem error_frame_counterexample:
  "''data: [ERROR] API quo'' @ (''ta exceeded'' @ [NL, NL]) =
     ''data: [ERROR] API quota exceeded'' @ [NL, NL] \<and>
   error (snd (handleSummarize (Body
     [Value ''data: [ERROR] API quo'', Value (''ta exceeded'' @ [NL, NL])]))) = ''API quo'' \<and>
   calls (snd (handleSummarize (Body
     [Value ''data: [ERROR] API quo'', Value (''ta exceeded'' @ [NL, NL])]))) =
     [SetIsLoading True, SetError '''', SetSummary '''', SetIsLoading False,
      SetError ''API quo'', ConsoleError (Error ''API quo'')]"
  by code_simp

subsection \<open>C5: the two-chunk example\<close>

text \<open>
  C5. For the chunk \<^verbatim>\<open>"data: This is \n\ndata: a test summary.\n\n"\<close> followed by the
  chunk \<^verbatim>\<open>"data: [DONE]\n\n"\<close> the function is left through the \<^verbatim>\<open>return\<close> of the
  \<^verbatim>\<open>[DONE]\<close> branch (state \<open>DONE\<close>) and the accumulated text is
  \<^verbatim>\<open>"This is a test summary."\<close>; the log shows the two progress calls made on the way.
\<close>

theorem test_summary_done:
  "handleSummarize (Body
     [Value (''data: This is '' @ [NL, NL] @ ''data: a test summary.'' @ [NL, NL]),
      Value (''data: [DONE]'' @ [NL, NL])]) =
   (DONE, \<lparr>accumulatedSummary = ''This is a test summary.'',
           summary = ''This is a test summary.'',
           isLoading = False,
           error = '''',
           calls = [SetIsLoading True, SetError '''', SetSummary '''',
                    SetSummary ''This is '', SetSummary ''This is a test summary.'',
                    SetIsLoading False]\<rparr>)"
  by code_simp

subsection \<open>C6: the \<^verbatim>\<open>[DONE]\<close> payload\<close>

text \<open>
  C6. A data line whose payload is exactly \<^verbatim>\<open>[DONE]\<close> makes the function return at once.
  Let the reads \<open>before\<close> have left the loop running, let the line be one of the lines of
  the next chunk, and let the lines \<open>ls\<close> before it in that chunk have left the loop
  running in session \<open>s2\<close>. Then the function ends in \<open>DONE\<close> with session \<open>s2\<close>, the
  loading flag cleared: the result does not depend on the lines \<open>ls'\<close> after it in the
  chunk nor on the reads \<open>after\<close>, so none of them is processed.
\<close>

theorem done_stops_reading:
  assumes run: "read_loop start before = Continue s1"
    and lines: "chunk_lines chunk = ls @ ''data: [DONE]'' # ls'"
    and upto: "process_lines s1 ls = Continue s2"
  shows "process_line s2 ''data: [DONE]'' = Returned (setIsLoading False s2) \<and>
         handleSummarize (Body (before @ Value chunk # after)) =
           (DONE, s2\<lparr>isLoading := False, calls := calls s2 @ [SetIsLoading False]\<rparr>)"
proof -
  have stop: "\<not> running (process_line s2 ''data: [DONE]'')"
    by (simp only: process_line_done running.simps not_False_eq_True)
  have "read_loop start (before @ Value chunk # after) = process_line s2 ''data: [DONE]''"
    using run lines upto stop by (rule read_loop_stops)
  then have "handleSummarize (Body (before @ Value chunk # after)) = (DONE, setIsLoading False s2)"
    by (simp only: handleSummarize_Body process_line_done flow.case)
  then show ?thesis
    by (simp add: process_line_done setIsLoading_def)
qed

text \<open>
  The theorem at a \<^verbatim>\<open>[DONE]\<close> line in the middle of an event, with a content frame, an
  error frame, a further chunk and a rejected read behind it.
\<close>

theorem done_stops_reading_witness:
  "handleSummarize (Body ([Value (''data: a'' @ [NL, NL])] @
      Value (''data: b'' @ [NL, NL] @ ''data: c'' @ [NL] @ ''data: [DONE]'' @ [NL] @
             ''data: d'' @ [NL, NL] @ ''data: [ERROR] late'' @ [NL, NL]) #
      [Value (''data: e'' @ [NL, NL]), Rejected NonError])) =
   (DONE, \<lparr>accumulatedSummary = ''abc'', summary = ''abc'', isLoading = False, error = '''',
           calls = [SetIsLoading True, SetError '''', SetSummary '''', SetSummary ''a'',
                    SetSummary ''ab'', SetSummary ''abc'', SetIsLoading False]\<rparr>)"
proof -
  let ?s1 = "\<lparr>accumulatedSummary = ''a'', summary = ''a'', isLoading = True, error = '''',
              calls = [SetIsLoading True, SetError '''', SetSummary '''', SetSummary ''a'']\<rparr>"
  let ?s2 = "\<lparr>accumulatedSummary = ''abc'', summary = ''abc'', isLoading = True, error = '''',
              calls = [SetIsLoading True, SetError '''', SetSummary '''', SetSummary ''a'',
                       SetSummary ''ab'', SetSummary ''abc'']\<rparr>"
  have run: "read_loop start [Value (''data: a'' @ [NL, NL])] = Continue ?s1"
    by code_simp
  have lines: "chunk_lines (''data: b'' @ [NL, NL] @ ''data: c'' @ [NL] @ ''data: [DONE]'' @ [NL] @
                 ''data: d'' @ [NL, NL] @ ''data: [ERROR] late'' @ [NL, NL]) =
               [''data: b'', ''data: c''] @ ''data: [DONE]'' #
               [''data: d'', ''data: [ERROR] late'', '''']"
    by code_simp
  have upto: "process_lines ?s1 [''data: b'', ''data: c''] = Continue ?s2"
    by code_simp
  from done_stops_reading[OF run lines upto, of "[Value (''data: e'' @ [NL, NL]), Rejected NonError]"]
  show ?thesis by simp
qed

subsection \<open>C7: escaped newlines\<close>

text \<open>
  C7. For a content payload \<open>p\<close> (neither \<^verbatim>\<open>[DONE]\<close> nor beginning with \<^verbatim>\<open>[ERROR]\<close>) the
  data line appends \<open>unescape p\<close> to the accumulated text and shows the result.
  \<open>unescape\<close> turns every backslash followed by \<open>n\<close> into one newline: an occurrence
  anywhere in the payload becomes a newline between the decoded parts before and after
  it, and a text without backslash is left as it is. The payload \<^verbatim>\<open>line1\nline2\<close> (with a
  literal backslash) yields the accumulated text \<open>line1\<close>, newline, \<open>line2\<close>.
\<close>

theorem content_unescaped:
  assumes "is_content p"
  shows "process_line s (''data: '' @ p) =
           Continue (s\<lparr>accumulatedSummary := accumulatedSummary s @ unescape p,
                       summary := accumulatedSummary s @ unescape p,
                       calls := calls s @ [SetSummary (accumulatedSummary s @ unescape p)]\<rparr>) \<and>
         unescape (a @ [BSL, CHR ''n''] @ b) = unescape a @ [NL] @ unescape b \<and>
         (BSL \<notin> set c \<longrightarrow> unescape c = c) \<and>
         accumulatedSummary (snd (handleSummarize (Body
           [Value (frame (''line1'' @ [BSL, CHR ''n''] @ ''line2''))]))) =
           ''line1'' @ [NL] @ ''line2''"
proof -
  have example: "accumulatedSummary (snd (handleSummarize (Body
      [Value (frame (''line1'' @ [BSL, CHR ''n''] @ ''line2''))]))) = ''line1'' @ [NL] @ ''line2''"
    by code_simp
  have line: "process_line s (''data: '' @ p) = Continue (content_step s p)"
    using assms by (rule process_line_content)
  have step: "content_step s p =
              s\<lparr>accumulatedSummary := accumulatedSummary s @ unescape p,
                summary := accumulatedSummary s @ unescape p,
                calls := calls s @ [SetSummary (accumulatedSummary s @ unescape p)]\<rparr>"
    by (simp add: content_step_def setSummary_def)
  show ?thesis
    unfolding line step
    using example by (simp add: unescape_append unescape_plain)
qed

text \<open>The theorem at the payload \<^verbatim>\<open>line1\nline2\<close>, in the first data line of a run.\<close>

theorem content_unescaped_witness:
  "process_line start (''data: '' @ (''line1'' @ [BSL, CHR ''n''] @ ''line2'')) =
     Continue (start\<lparr>accumulatedSummary := ''line1'' @ [NL] @ ''line2'',
                     summary := ''line1'' @ [NL] @ ''line2'',
                     calls := calls start @ [SetSummary (''line1'' @ [NL] @ ''line2'')]\<rparr>)"
proof -
  have c: "is_content (''line1'' @ [BSL, CHR ''n''] @ ''line2'')"
    by code_simp
  have plain: "BSL \<notin> set ''line1''" "BSL \<notin> set ''line2''"
    by simp_all
  from content_unescaped[OF c, of start "''line1''" "''line2''" "''line1''"]
       content_unescaped[OF c, of start "''line1''" "''line2''" "''line2''"] plain
  have "unescape (''line1'' @ [BSL, CHR ''n''] @ ''line2'') = ''line1'' @ [NL] @ ''line2''"
    by simp
  with content_unescaped[OF c, of start] show ?thesis
    by (simp add: start_fields)
qed

subsection \<open>C8: the session invariant\<close>

text \<open>
  C8. For every response, the values handed to \<^verbatim>\<open>setSummary\<close> during the run are ordered
  by the prefix relation (each is a prefix of every later one, so the text shown only
  grows), and the last of them is the final accumulated text. Once the function has
  returned or thrown, nothing more is processed: a run that does not end in \<open>ENDED\<close> is
  unchanged by any reads added behind it, and the same holds inside the read loop from
  any session, for the events added behind a list of events and for the lines added
  behind a list of lines. The line on which the function returns or throws, and the
  \<^verbatim>\<open>catch\<close> block, change neither the accumulated text nor the values shown.
\<close>

theorem session_invariant:
  "sorted_wrt prefix (progress_values (calls (snd (handleSummarize r)))) \<and>
   last (progress_values (calls (snd (handleSummarize r)))) =
     accumulatedSummary (snd (handleSummarize r)) \<and>
   (fst (handleSummarize (Body reads)) \<noteq> ENDED \<longrightarrow>
      handleSummarize (Body (reads @ later)) = handleSummarize (Body reads)) \<and>
   (\<not> running (read_loop s reads) \<longrightarrow> read_loop s (reads @ later) = read_loop s reads) \<and>
   (\<not> running (process_events s es) \<longrightarrow>
      process_events s (es @ es') = process_events s es) \<and>
   (\<not> running (process_lines s ls) \<longrightarrow>
      process_lines s (ls @ ls') = process_lines s ls) \<and>
   (\<not> running (process_line s l) \<longrightarrow>
      accumulatedSummary (flow_session (process_line s l)) = accumulatedSummary s \<and>
      progress_values (calls (flow_session (process_line s l))) = progress_values (calls s)) \<and>
   accumulatedSummary (catch_block e s) = accumulatedSummary s \<and>
   progress_values (calls (catch_block e s)) = progress_values (calls s)"
proof -
  have mono: "sorted_wrt prefix (progress_values (calls (snd (handleSummarize r))))"
    and shown: "last (progress_values (calls (snd (handleSummarize r)))) =
                accumulatedSummary (snd (handleSummarize r))"
    using growing_handleSummarize[of r] by (simp_all add: growing_def)
  have final: "fst (handleSummarize (Body reads)) \<noteq> ENDED \<longrightarrow>
      handleSummarize (Body (reads @ later)) = handleSummarize (Body reads)"
    by (cases "read_loop start reads") (simp_all add: handleSummarize_Body read_loop_append)
  have loop: "\<not> running (read_loop s reads) \<longrightarrow>
      read_loop s (reads @ later) = read_loop s reads"
    by (cases "read_loop s reads") (simp_all add: read_loop_append)
  have events: "\<not> running (process_events s es) \<longrightarrow>
      process_events s (es @ es') = process_events s es"
    by (cases "process_events s es") (simp_all add: process_events_append)
  have lines: "\<not> running (process_lines s ls) \<longrightarrow>
      process_lines s (ls @ ls') = process_lines s ls"
    by (cases "process_lines s ls") (simp_all add: process_lines_append)
  have leave: "\<not> running (process_line s l) \<longrightarrow>
      accumulatedSummary (flow_session (process_line s l)) = accumulatedSummary s \<and>
      progress_values (calls (flow_session (process_line s l))) = progress_values (calls s)"
    by (simp add: process_line_def Let_def setIsLoading_def)
  have caught: "accumulatedSummary (catch_block e s) = accumulatedSummary s"
    "progress_values (calls (catch_block e s)) = progress_values (calls s)"
    by (simp_all add: catch_block_fields)
  from mono shown final loop events lines leave caught show ?thesis
    by blast
qed

text \<open>
  The theorem at a chunk of two content frames and the \<^verbatim>\<open>[DONE]\<close> frame, with a further
  chunk and a rejected read added behind it; at events and lines that end in a sentinel,
  with a data line added behind them; and at the \<^verbatim>\<open>[DONE]\<close> line itself.
\<close>

theorem session_invariant_witness:
  "fst (handleSummarize (Body [Value (frame ''a'' @ frame ''b'' @ frame ''[DONE]'')])) \<noteq> ENDED \<and>
   handleSummarize (Body ([Value (frame ''a'' @ frame ''b'' @ frame ''[DONE]'')] @
                          [Value (frame ''c''), Rejected NonError])) =
   handleSummarize (Body [Value (frame ''a'' @ frame ''b'' @ frame ''[DONE]'')]) \<and>
   sorted_wrt prefix (progress_values (calls (snd (handleSummarize (Body
     [Value (frame ''a'' @ frame ''b'' @ frame ''[DONE]'')]))))) \<and>
   \<not> running (read_loop start [Value (frame ''a'' @ frame ''b'' @ frame ''[DONE]'')]) \<and>
   read_loop start ([Value (frame ''a'' @ frame ''b'' @ frame ''[DONE]'')] @
                    [Value (frame ''c''), Rejected NonError]) =
   read_loop start [Value (frame ''a'' @ frame ''b'' @ frame ''[DONE]'')] \<and>
   \<not> running (process_events start [''data: a'', ''data: [ERROR] no'']) \<and>
   process_events start ([''data: a'', ''data: [ERROR] no''] @ [''data: b'']) =
   process_events start [''data: a'', ''data: [ERROR] no''] \<and>
   \<not> running (process_lines start [''data: a'', ''data: [DONE]'']) \<and>
   process_lines start ([''data: a'', ''data: [DONE]''] @ [''data: b'']) =
   process_lines start [''data: a'', ''data: [DONE]''] \<and>
   \<not> running (process_line start ''data: [DONE]'') \<and>
   accumulatedSummary (flow_session (process_line start ''data: [DONE]'')) =
   accumulatedSummary start"
proof -
  let ?reads = "[Value (frame ''a'' @ frame ''b'' @ frame ''[DONE]'')]"
  have left: "fst (handleSummarize (Body ?reads)) \<noteq> ENDED"
    by code_simp
  have loop: "\<not> running (read_loop start ?reads)"
    by code_simp
  have events: "\<not> running (process_events start [''data: a'', ''data: [ERROR] no''])"
    by code_simp
  have lines: "\<not> running (process_lines start [''data: a'', ''data: [DONE]''])"
    by code_simp
  have line: "\<not> running (process_line start ''data: [DONE]'')"
    by code_simp
  from session_invariant[where r = "Body ?reads" and reads = ?reads
      and later = "[Value (frame ''c''), Rejected NonError]" and s = start
      and es = "[''data: a'', ''data: [ERROR] no'']" and es' = "[''data: b'']"
      and ls = "[''data: a'', ''data: [DONE]'']" and ls' = "[''data: b'']"
      and l = "''data: [DONE]''"]
    left loop events lines line
  show ?thesis by blast
qed

subsection \<open>C9: other lines\<close>

text \<open>
  C9. A line that does not begin with \<^verbatim>\<open>"data: "\<close> is skipped: the session, with the
  accumulated text and the log of all calls, is the same after it as before, the loop
  goes on, and a list of lines is processed with the line exactly as without it.
\<close>

theorem non_data_line_ignored:
  assumes "\<not> startsWith line ''data: ''"
  shows "process_line s line = Continue s \<and>
         process_lines s (ls @ line # ls') = process_lines s (ls @ ls')"
proof -
  have skip: "process_line s' line = Continue s'" for s'
    using assms by (simp add: process_line_other data_line_def)
  have lines: "process_lines s (ls @ line # ls') = process_lines s (ls @ ls')"
    by (cases "process_lines s ls") (simp_all add: process_lines_append skip)
  show ?thesis
    using skip lines by simp
qed

text \<open>The theorem at the line \<^verbatim>\<open>"id: 42"\<close> between two data lines.\<close>

theorem non_data_line_ignored_witness:
  "process_line start ''id: 42'' = Continue start \<and>
   process_lines start ([''data: a''] @ ''id: 42'' # [''data: b'']) =
   process_lines start ([''data: a''] @ [''data: b''])"
proof -
  have other: "\<not> startsWith ''id: 42'' ''data: ''"
    by code_simp
  from non_data_line_ignored[OF other] show ?thesis
    by blast
qed

subsection \<open>C10: the error prefix\<close>

text \<open>
  C10. The test of line 65 looks at the seven characters \<^verbatim>\<open>[ERROR]\<close>, and line 66 removes
  eight. Let the reads \<open>before\<close> have left the loop running, let a data line whose payload
  is \<^verbatim>\<open>[ERROR]\<close> followed by any character \<open>c\<close> (a space or not) and a text \<open>msg\<close> be one of
  the lines of the next chunk, and let the lines \<open>ls\<close> before it in that chunk have left
  the loop running in session \<open>s2\<close>. Then the function ends in \<open>FAILED\<close> with the error
  text \<open>msg\<close>, without \<open>c\<close>; the accumulated text is that of \<open>s2\<close> and no progress call is
  made for the payload.
\<close>

theorem error_prefix_mismatch:
  assumes run: "read_loop start before = Continue s1"
    and lines: "chunk_lines chunk = ls @ (''data: [ERROR]'' @ c # msg) # ls'"
    and upto: "process_lines s1 ls = Continue s2"
  shows "handleSummarize (Body (before @ Value chunk # after)) =
           (FAILED, s2\<lparr>isLoading := False, error := msg,
                        calls := calls s2 @ [SetIsLoading False, SetError msg,
                                             ConsoleError (Error msg)]\<rparr>)"
proof -
  let ?line = "''data: [ERROR]'' @ c # msg"
  have thrown: "process_line s2 ?line = Thrown (Error msg) s2"
    by (rule process_line_error)
  then have stop: "\<not> running (process_line s2 ?line)"
    by simp
  have "read_loop start (before @ Value chunk # after) = process_line s2 ?line"
    using run lines upto stop by (rule read_loop_stops)
  then have "handleSummarize (Body (before @ Value chunk # after)) =
             (FAILED, catch_block (Error msg) s2)"
    by (simp only: handleSummarize_Body thrown flow.case)
  moreover have "catch_block (Error msg) s2 =
      s2\<lparr>isLoading := False, error := msg,
         calls := calls s2 @ [SetIsLoading False, SetError msg, ConsoleError (Error msg)]\<rparr>"
    by (simp add: catch_block_def consoleError_def setError_def setIsLoading_def)
  ultimately show ?thesis
    by simp
qed

text \<open>
  The theorem at the payload \<^verbatim>\<open>[ERROR]Xmsg\<close>, behind a content frame and another line
  of the same chunk.
\<close>

theorem error_prefix_mismatch_witness:
  "handleSummarize (Body ([Value (frame ''a'')] @
      Value (frame ''b'' @ ''id: 7'' @ [NL] @ ''data: [ERROR]Xmsg'' @ [NL, NL] @ frame ''c'') #
      [Value (frame ''d'')])) =
   (FAILED, \<lparr>accumulatedSummary = ''ab'', summary = ''ab'', isLoading = False, error = ''msg'',
             calls = [SetIsLoading True, SetError '''', SetSummary '''', SetSummary ''a'',
                      SetSummary ''ab'', SetIsLoading False, SetError ''msg'',
                      ConsoleError (Error ''msg'')]\<rparr>)"
proof -
  let ?s1 = "\<lparr>accumulatedSummary = ''a'', summary = ''a'', isLoading = True, error = '''',
              calls = [SetIsLoading True, SetError '''', SetSummary '''', SetSummary ''a'']\<rparr>"
  let ?s2 = "\<lparr>accumulatedSummary = ''ab'', summary = ''ab'', isLoading = True, error = '''',
              calls = [SetIsLoading True, SetError '''', SetSummary '''', SetSummary ''a'',
                       SetSummary ''ab'']\<rparr>"
  have run: "read_loop start [Value (frame ''a'')] = Continue ?s1"
    by code_simp
  have lines: "chunk_lines (frame ''b'' @ ''id: 7'' @ [NL] @ ''data: [ERROR]Xmsg'' @ [NL, NL] @
                 frame ''c'') =
               [''data: b'', ''id: 7''] @ (''data: [ERROR]'' @ CHR ''X'' # ''msg'') #
               [''data: c'', '''']"
    by code_simp
  have upto: "process_lines ?s1 [''data: b'', ''id: 7''] = Continue ?s2"
    by code_simp
  from error_prefix_mismatch[OF run lines upto, of "[Value (frame ''d'')]"]
  show ?thesis by simp
qed

end
